theory Spec2Isabelle
  imports Complex_Main
begin

section \<open>Python string primitives used by the listing\<close>

text \<open>
  The retrieval subsystem is given as Python listings (the guide's
  \<^verbatim>\<open>chunk_text\<close>, \<^verbatim>\<open>RAGManager\<close> and \<^verbatim>\<open>setup_rag\<close>).  Python integers are
  unbounded and may be negative, so window positions are \<^typ>\<open>int\<close>; a Python \<^verbatim>\<open>str\<close> is a
  \<^typ>\<open>string\<close>, one \<^typ>\<open>char\<close> per character.
\<close>

text \<open>Index normalisation of a slice bound against a sequence of length \<open>n\<close>: a negative bound
  counts from the end, and every bound is clamped into \<open>0..n\<close>.\<close>

definition norm_index :: "int \<Rightarrow> int \<Rightarrow> int" where
  "norm_index n i = (if i < 0 then max 0 (n + i) else min i n)"

text \<open>\<^verbatim>\<open>text[start:end]\<close>\<close>

definition slice :: "string \<Rightarrow> int \<Rightarrow> int \<Rightarrow> string" where
  "slice text start end =
     (let n = int (length text); s = norm_index n start; e = norm_index n end
      in take (nat (e - s)) (drop (nat s) text))"

text \<open>\<^verbatim>\<open>text.rfind(sub, start, end)\<close>: the highest position \<open>i\<close> with
  \<open>start \<le> i\<close> and \<open>i + len(sub) \<le> end\<close> (both bounds normalised) at which \<open>sub\<close> occurs, or \<open>-1\<close>.\<close>

definition rfind :: "string \<Rightarrow> string \<Rightarrow> int \<Rightarrow> int \<Rightarrow> int" where
  "rfind text sub start end =
     (let n = int (length text); s = norm_index n start; e = norm_index n end
      in case filter (\<lambda>i. take (length sub) (drop i text) = sub)
                     (rev [nat s ..< nat (e - int (length sub) + 1)]) of
           [] \<Rightarrow> - 1
         | i # _ \<Rightarrow> int i)"

text \<open>\<^verbatim>\<open>str.isspace\<close> on one character (tab, line feed, vertical tab, form feed, carriage
  return, the four separators \<open>0x1C..0x1F\<close>, space, and in the upper half next line \<open>0x85\<close>
  and no-break space \<open>0xA0\<close>) and \<^verbatim>\<open>str.strip()\<close>.\<close>

definition is_space :: "char \<Rightarrow> bool" where
  "is_space c =
     (let k = (of_char c :: nat)
      in (9 \<le> k \<and> k \<le> 13) \<or> (28 \<le> k \<and> k \<le> 32) \<or> k = 133 \<or> k = 160)"

definition strip :: "string \<Rightarrow> string" where
  "strip s = rev (dropWhile is_space (rev (dropWhile is_space s)))"

section \<open>The chunker\<close>

text \<open>
  \<^verbatim>\<open>
  def chunk_text(text, chunk_size=500, overlap=50):
      chunks = []
      start = 0
      while start < len(text):
          end = start + chunk_size
          if end < len(text):
              for char in ['. ', '! ', '? ', '\n\n']:
                  pos = text.rfind(char, start, end)
                  if pos != -1:
                      end = pos + 1
                      break
          chunks.append(text[start:end].strip())
          start = end - overlap
      return chunks
  \<close>
\<close>

definition terminators :: "string list" where
  "terminators = [''. '', ''! '', ''? '', [CHR 0x0A, CHR 0x0A]]"

text \<open>The inner \<^verbatim>\<open>for\<close> loop: the first terminator of the list that occurs in the window
  moves the cut to just after its first character; otherwise the cut stays.\<close>

fun find_boundary :: "string \<Rightarrow> int \<Rightarrow> int \<Rightarrow> string list \<Rightarrow> int" where
  "find_boundary text start end [] = end"
| "find_boundary text start end (c # cs) =
     (let pos = rfind text c start end
      in if pos \<noteq> - 1 then pos + 1 else find_boundary text start end cs)"

text \<open>The value of \<^verbatim>\<open>end\<close> when the chunk is appended.\<close>

definition window_end :: "string \<Rightarrow> int \<Rightarrow> int \<Rightarrow> int" where
  "window_end text chunk_size start =
     (let end = start + chunk_size
      in if end < int (length text) then find_boundary text start end terminators else end)"

text \<open>The \<^verbatim>\<open>while\<close> loop.  The loop may run forever, so its result is an option: \<open>None\<close> is
  a call that never returns.\<close>

partial_function (option) chunk_loop ::
  "string \<Rightarrow> int \<Rightarrow> int \<Rightarrow> int \<Rightarrow> string list \<Rightarrow> string list option" where
  "chunk_loop text chunk_size overlap start chunks =
     (if start < int (length text)
      then chunk_loop text chunk_size overlap
             (window_end text chunk_size start - overlap)
             (chunks @ [strip (slice text start (window_end text chunk_size start))])
      else Some chunks)"

declare chunk_loop.simps [code]

definition chunk_text :: "string \<Rightarrow> int \<Rightarrow> int \<Rightarrow> string list option" where
  "chunk_text text chunk_size overlap = chunk_loop text chunk_size overlap 0 []"


section \<open>The document store: data model\<close>

text \<open>
  An embedding is a vector of numbers, each the real number that the stored floating-point
  number denotes.  A metadata entry is a JSON object, kept as its key/value pairs
  (\<^verbatim>\<open>{"source": name}\<close>).
\<close>

type_synonym vec = "real list"
type_synonym meta = "(string \<times> string) list"

text \<open>The exceptions that the listings can raise.  \<open>EmbeddingUnavailable\<close> is a failure of the
  injected embedding capability; the others are Python's own or the libraries': a missing
  file (\<open>FileNotFoundError\<close>), an index file that cannot be read (\<open>RuntimeError\<close>), a text file
  that is not UTF-8 (\<open>UnicodeDecodeError\<close>), a metadata file that is not JSON
  (\<open>JSONDecodeError\<close>).\<close>

datatype error =
  EmbeddingUnavailable | AttributeError | IndexError | TypeError
  | FileNotFoundError | RuntimeError | UnicodeDecodeError | JSONDecodeError

text \<open>The fields of \<^verbatim>\<open>RAGManager\<close>: \<^verbatim>\<open>self.index\<close> is \<open>None\<close> until an index is loaded or
  created, and otherwise holds the stored vectors in insertion order.\<close>

record rag_manager =
  index :: "vec list option"
  documents :: "string list"
  metadata :: "meta list"

text \<open>A file of the store: it does not exist, or it exists and its reader rejects it, or it
  holds a content.\<close>

datatype 'a artifact = Missing | Unreadable | Content 'a

fun readable :: "'a artifact \<Rightarrow> bool" where
  "readable (Content c) = True"
| "readable Missing = False"
| "readable Unreadable = False"

text \<open>The three files below \<^verbatim>\<open>store_path\<close>.  \<^verbatim>\<open>faiss.index\<close> holds the vectors,
  \<^verbatim>\<open>documents.txt\<close> the characters of the text as they are in the file, \<^verbatim>\<open>metadata.txt\<close> the
  JSON array (\<^verbatim>\<open>json.dump\<close> followed by \<^verbatim>\<open>json.load\<close> gives the list back).\<close>

record store =
  faiss_index :: "vec list artifact"
  documents_txt :: "string artifact"
  metadata_txt :: "meta list artifact"

text \<open>One entry of the list that \<^verbatim>\<open>retrieve\<close> returns.\<close>

record retrieval_result =
  res_text :: string
  res_score :: real
  res_metadata :: meta

text \<open>A PDF file of the indexed directory: its name and the extracted text of its pages.\<close>

type_synonym pdf = "string \<times> string list"

section \<open>Python list and string operations of the store\<close>

text \<open>\<^verbatim>\<open>xs[i]\<close>: a negative index counts from the end, an index out of range raises.\<close>

definition py_index :: "'a list \<Rightarrow> int \<Rightarrow> error + 'a" where
  "py_index xs i =
     (if 0 \<le> i \<and> i < int (length xs) then Inr (xs ! nat i)
      else if i < 0 \<and> - int (length xs) \<le> i then Inr (xs ! nat (int (length xs) + i))
      else Inl IndexError)"

text \<open>\<^verbatim>\<open>"\n".join(xs)\<close> and \<^verbatim>\<open>s.split("\n")\<close>.\<close>

fun join_nl :: "string list \<Rightarrow> string" where
  "join_nl [] = []"
| "join_nl [x] = x"
| "join_nl (x # y # ys) = x @ CHR 0x0A # join_nl (y # ys)"

fun split_nl :: "string \<Rightarrow> string list" where
  "split_nl [] = [[]]"
| "split_nl (c # cs) =
     (if c = CHR 0x0A then [] # split_nl cs
      else (case split_nl cs of [] \<Rightarrow> [[c]] | l # ls \<Rightarrow> (c # l) # ls))"

text \<open>Reading a file that was opened in text mode (\<^verbatim>\<open>open(path, "r")\<close>): every carriage
  return followed by a line feed, and every other carriage return, arrives as one line feed.
  Writing in text mode leaves the characters as they are (the line separator of the platform
  is the line feed).\<close>

fun universal_newlines :: "string \<Rightarrow> string" where
  "universal_newlines [] = []"
| "universal_newlines [c] = [if c = CHR 0x0D then CHR 0x0A else c]"
| "universal_newlines (c # d # cs) =
     (if c = CHR 0x0D \<and> d = CHR 0x0A then CHR 0x0A # universal_newlines cs
      else if c = CHR 0x0D then CHR 0x0A # universal_newlines (d # cs)
      else c # universal_newlines (d # cs))"

section \<open>The embedding capability and the vector index\<close>

text \<open>\<^verbatim>\<open>self.model.encode(chunks)\<close>: the embedder is an injected function from a text to its
  vector, \<open>None\<close> when the capability fails; a batch fails when one of its texts does.\<close>

fun encode :: "(string \<Rightarrow> vec option) \<Rightarrow> string list \<Rightarrow> error + vec list" where
  "encode model [] = Inr []"
| "encode model (c # cs) =
     (case model c of
        None \<Rightarrow> Inl EmbeddingUnavailable
      | Some v \<Rightarrow> (case encode model cs of Inl e \<Rightarrow> Inl e | Inr vs \<Rightarrow> Inr (v # vs)))"

text \<open>
  Modelled from the spec: the distance of the vector index.  The index is an object of the
  vector-index library (\<^verbatim>\<open>IndexFlatL2\<close>), whose code is not among the sources; the spec
  gives the metric as the squared Euclidean distance, lower meaning more similar.
\<close>

definition l2sq :: "vec \<Rightarrow> vec \<Rightarrow> real" where
  "l2sq u v = sum_list (map (\<lambda>(x, y). (x - y)\<^sup>2) (zip u v))"

text \<open>
  Modelled from the spec: the ranking of the hits, a hit being the ordinal of a stored vector
  with its distance to the query.  The spec orders the result by ascending distance and
  breaks ties by ascending ordinal (first inserted wins).  The hits are taken in insertion
  order, and each one is put behind all hits that are at most as far away.
\<close>

type_synonym hit = "int \<times> real"

fun rank_insert :: "hit \<Rightarrow> hit list \<Rightarrow> hit list" where
  "rank_insert h [] = [h]"
| "rank_insert h (x # xs) = (if snd x \<le> snd h then x # rank_insert h xs else h # x # xs)"

definition ranked :: "hit list \<Rightarrow> hit list" where
  "ranked hits = foldl (\<lambda>acc h. rank_insert h acc) [] hits"

definition all_hits :: "vec list \<Rightarrow> vec \<Rightarrow> hit list" where
  "all_hits vs q = zip (map int [0 ..< length vs]) (map (l2sq q) vs)"

text \<open>
  Modelled from the spec: \<^verbatim>\<open>index.search(query_vector, k)\<close>, the nearest-neighbour search of
  the library.  By the spec it returns at most \<open>k\<close> hits, the nearest first, and the empty
  list on an empty index.
\<close>

definition search :: "vec list \<Rightarrow> vec \<Rightarrow> int \<Rightarrow> hit list" where
  "search vs q k = take (nat k) (ranked (all_hits vs q))"

text \<open>The order of the ranking: nearer first, and the lower ordinal first at equal distance.\<close>

fun closer :: "hit \<Rightarrow> hit \<Rightarrow> bool" where
  "closer (i, d) (j, e) = (d < e \<or> (d = e \<and> i < j))"

section \<open>RAGManager\<close>

text \<open>
  \<^verbatim>\<open>
  def _save_index(self):
      os.makedirs(self.store_path, exist_ok=True)
      faiss.write_index(self.index, os.path.join(self.store_path, "faiss.index"))
      with open(os.path.join(self.store_path, "documents.txt"), "w", encoding="utf-8") as f:
          f.write("\n".join(self.documents))
      with open(os.path.join(self.store_path, "metadata.txt"), "w") as f:
          json.dump(self.metadata, f)
  \<close>
  Writing an index that is \<open>None\<close> is rejected by the library before any file is written.
\<close>

definition save_index :: "rag_manager \<Rightarrow> store \<Rightarrow> error + store" where
  "save_index self fs =
     (case index self of
        None \<Rightarrow> Inl TypeError
      | Some vs \<Rightarrow>
          Inr (fs\<lparr>faiss_index := Content vs,
                   documents_txt := Content (join_nl (documents self)),
                   metadata_txt := Content (metadata self)\<rparr>))"

text \<open>
  \<^verbatim>\<open>
  def _load_index(self):
      index_path = os.path.join(self.store_path, "faiss.index")
      if not os.path.exists(index_path):
          return  # Noch kein Index vorhanden
      self.index = faiss.read_index(index_path)
      with open(os.path.join(self.store_path, "documents.txt"), "r", encoding="utf-8") as f:
          self.documents = f.read().split("\n")
      with open(os.path.join(self.store_path, "metadata.txt"), "r") as f:
          self.metadata = json.load(f)
  \<close>
\<close>

definition load_index :: "rag_manager \<Rightarrow> store \<Rightarrow> error + rag_manager" where
  "load_index self fs =
     (case faiss_index fs of
        Missing \<Rightarrow> Inr self
      | Unreadable \<Rightarrow> Inl RuntimeError
      | Content vs \<Rightarrow>
          (case documents_txt fs of
             Missing \<Rightarrow> Inl FileNotFoundError
           | Unreadable \<Rightarrow> Inl UnicodeDecodeError
           | Content txt \<Rightarrow>
               (case metadata_txt fs of
                  Missing \<Rightarrow> Inl FileNotFoundError
                | Unreadable \<Rightarrow> Inl JSONDecodeError
                | Content md \<Rightarrow>
                    Inr (self\<lparr>index := Some vs,
                              documents := split_nl (universal_newlines txt),
                              metadata := md\<rparr>))))"

text \<open>
  \<^verbatim>\<open>
  def __init__(self, model_name=..., store_path="vector_store"):
      self.model = SentenceTransformer(model_name)
      self.index = None
      self.documents = []
      self.metadata = []
      self.store_path = store_path
      self._load_index()
  \<close>
\<close>

definition RAGManager :: "store \<Rightarrow> error + rag_manager" where
  "RAGManager fs = load_index \<lparr>index = None, documents = [], metadata = []\<rparr> fs"

text \<open>
  \<^verbatim>\<open>
  def add_documents(self, texts, metadatas):
      chunks = [self._chunk_text(t) for t in texts]
      embeddings = self.model.encode(chunks)
      if self.index is None:
          self.index = faiss.IndexFlatL2(384)
      self.index.add(embeddings)
      self.documents.extend(chunks)
      self.metadata.extend(metadatas)
      self._save_index()
  \<close>
  The method \<^verbatim>\<open>_chunk_text\<close> is not part of the listing.  The list comprehension stores one
  entry per input text and \<^verbatim>\<open>_save_index\<close> joins the entries as strings, so it is taken as a
  parameter \<open>chunk\<close> from a text to the stored string.  A failing embedder raises before the
  object or the store is touched.
\<close>

definition vectors :: "rag_manager \<Rightarrow> vec list" where
  "vectors self = (case index self of None \<Rightarrow> [] | Some vs \<Rightarrow> vs)"

definition add_documents ::
  "(string \<Rightarrow> vec option) \<Rightarrow> (string \<Rightarrow> string) \<Rightarrow> string list \<Rightarrow> meta list \<Rightarrow>
     rag_manager \<times> store \<Rightarrow> error + rag_manager \<times> store" where
  "add_documents model chunk texts metadatas st =
     (let self = fst st; fs = snd st; chunks = map chunk texts
      in case encode model chunks of
           Inl e \<Rightarrow> Inl e
         | Inr embeddings \<Rightarrow>
             (let self' = self\<lparr>index := Some (vectors self @ embeddings),
                               documents := documents self @ chunks,
                               metadata := metadata self @ metadatas\<rparr>
              in case save_index self' fs of
                   Inl e \<Rightarrow> Inl e
                 | Inr fs' \<Rightarrow> Inr (self', fs')))"

text \<open>
  \<^verbatim>\<open>
  def retrieve(self, query, top_k=3):
      query_vector = self.model.encode([query])
      distances, indices = self.index.search(query_vector, top_k)
      results = []
      for i, idx in enumerate(indices[0]):
          score = 1.0 / (1.0 + distances[0][i])
          results.append({"text": self.documents[idx], "score": score,
                          "metadata": self.metadata[idx]})
      return results
  \<close>
\<close>

text \<open>
  The score \<^verbatim>\<open>1.0 / (1.0 + distances[0][i])\<close> is computed in binary floating point: the sum
  and the quotient are each rounded to the nearest number with a significand of 53 bits, a
  tie going to the even significand.  A floating-point number is the real number it denotes.
  The exponent is not bounded: for a finite distance that is not negative the sum is at least
  1 and the quotient lies between \<open>2\<^sup>-\<^sup>1\<^sup>2\<^sup>8\<close> and 1, where no overflow and no underflow
  occurs.  An infinite distance, which the code turns into the score 0, is not a value of
  this type.
\<close>

definition rne :: "real \<Rightarrow> int" where
  "rne q =
     (let f = \<lfloor>q\<rfloor>; r = q - of_int f
      in if r < 1 / 2 then f else if 1 / 2 < r then f + 1 else if even f then f else f + 1)"

text \<open>The weight of the last significand bit of a positive number at precision \<open>p\<close>.\<close>

definition ulp :: "nat \<Rightarrow> real \<Rightarrow> real" where
  "ulp p x = 2 powr of_int (\<lfloor>log 2 x\<rfloor> - int p + 1)"

definition round_to :: "nat \<Rightarrow> real \<Rightarrow> real" where
  "round_to p x =
     (if x = 0 then 0 else sgn x * of_int (rne (\<bar>x\<bar> / ulp p \<bar>x\<bar>)) * ulp p \<bar>x\<bar>)"

definition score_of :: "real \<Rightarrow> real" where
  "score_of d = round_to 53 (1 / round_to 53 (1 + d))"

fun format_results :: "rag_manager \<Rightarrow> hit list \<Rightarrow> error + retrieval_result list" where
  "format_results self [] = Inr []"
| "format_results self ((idx, d) # hits) =
     (case py_index (documents self) idx of
        Inl e \<Rightarrow> Inl e
      | Inr t \<Rightarrow>
          (case py_index (metadata self) idx of
             Inl e \<Rightarrow> Inl e
           | Inr m \<Rightarrow>
               (case format_results self hits of
                  Inl e \<Rightarrow> Inl e
                | Inr rs \<Rightarrow>
                    Inr (\<lparr>res_text = t, res_score = score_of d, res_metadata = m\<rparr> # rs))))"

definition retrieve ::
  "(string \<Rightarrow> vec option) \<Rightarrow> rag_manager \<Rightarrow> string \<Rightarrow> int \<Rightarrow> error + retrieval_result list" where
  "retrieve model self query top_k =
     (case model query of
        None \<Rightarrow> Inl EmbeddingUnavailable
      | Some query_vector \<Rightarrow>
          (case index self of
             None \<Rightarrow> Inl AttributeError
           | Some vs \<Rightarrow> format_results self (search vs query_vector top_k)))"

text \<open>
  \<^verbatim>\<open>
  def index_directory(self, path, file_pattern="*.pdf"):
      for pdf_file in Path(path).glob(file_pattern):
          reader = PdfReader(pdf_file)
          text = "\n".join([page.extract_text() for page in reader.pages])
          self.add_documents(texts=[text], metadatas=[{"source": pdf_file.name}])
  \<close>
  An exception leaves the loop; what the earlier iterations did to the object and to the
  store stays, so the result carries the state reached together with the error, if any.
\<close>

fun index_directory ::
  "(string \<Rightarrow> vec option) \<Rightarrow> (string \<Rightarrow> string) \<Rightarrow> pdf list \<Rightarrow>
     rag_manager \<times> store \<Rightarrow> error option \<times> rag_manager \<times> store" where
  "index_directory model chunk [] st = (None, st)"
| "index_directory model chunk ((name, pages) # pdfs) st =
     (case add_documents model chunk [join_nl pages] [[(''source'', name)]] st of
        Inl e \<Rightarrow> (Some e, st)
      | Inr st' \<Rightarrow> index_directory model chunk pdfs st')"

section \<open>Automatic indexing\<close>

text \<open>
  \<^verbatim>\<open>
  def setup_rag():
      force_reindex = "--reindex" in sys.argv
      pdfs = [f for f in os.listdir(".") if f.endswith(".pdf")]
      if not pdfs:
          return
      vector_store_path = "vector_store/faiss.index"
      if os.path.exists(vector_store_path) and not force_reindex:
          return
      rag_manager = RAGManager()
      rag_manager.index_directory(".", file_pattern="*.pdf")
  \<close>
  The inputs are the flag, the PDF files of the directory and the store; the result is the
  store afterwards, with the error if the run was aborted by one.
\<close>

definition setup_rag ::
  "(string \<Rightarrow> vec option) \<Rightarrow> (string \<Rightarrow> string) \<Rightarrow> bool \<Rightarrow> pdf list \<Rightarrow> store \<Rightarrow>
     error option \<times> store" where
  "setup_rag model chunk force_reindex pdfs fs =
     (if pdfs = [] then (None, fs)
      else if faiss_index fs \<noteq> Missing \<and> \<not> force_reindex then (None, fs)
      else (case RAGManager fs of
              Inl e \<Rightarrow> (Some e, fs)
            | Inr rag_manager \<Rightarrow>
                (case index_directory model chunk pdfs (rag_manager, fs) of
                   (r, st) \<Rightarrow> (r, snd st))))"

text \<open>The store before anything was persisted.\<close>

definition empty_store :: store where
  "empty_store = \<lparr>faiss_index = Missing, documents_txt = Missing, metadata_txt = Missing\<rparr>"

section \<open>Sequences of operations on a manager\<close>

text \<open>The two public mutators, as the steps of a run.  A run stops at the first exception and
  keeps the state reached.\<close>

datatype operation = AddDocuments "string list" "meta list" | IndexDirectory "pdf list"

fun apply_operation ::
  "(string \<Rightarrow> vec option) \<Rightarrow> (string \<Rightarrow> string) \<Rightarrow> operation \<Rightarrow>
     rag_manager \<times> store \<Rightarrow> error option \<times> rag_manager \<times> store" where
  "apply_operation model chunk (AddDocuments texts metadatas) st =
     (case add_documents model chunk texts metadatas st of
        Inl e \<Rightarrow> (Some e, st)
      | Inr st' \<Rightarrow> (None, st'))"
| "apply_operation model chunk (IndexDirectory pdfs) st = index_directory model chunk pdfs st"

fun run_operations ::
  "(string \<Rightarrow> vec option) \<Rightarrow> (string \<Rightarrow> string) \<Rightarrow> operation list \<Rightarrow>
     rag_manager \<times> store \<Rightarrow> error option \<times> rag_manager \<times> store" where
  "run_operations model chunk [] st = (None, st)"
| "run_operations model chunk (x # xs) st =
     (case apply_operation model chunk x st of
        (None, st') \<Rightarrow> run_operations model chunk xs st'
      | (Some e, st') \<Rightarrow> (Some e, st'))"

text \<open>An \<^verbatim>\<open>add_documents\<close> call is well formed when it passes one metadata entry per text;
  \<^verbatim>\<open>index_directory\<close> always does.  The entries of an operation are the texts it submits, each
  with the metadata submitted for it.\<close>

fun well_formed :: "operation \<Rightarrow> bool" where
  "well_formed (AddDocuments texts metadatas) = (length texts = length metadatas)"
| "well_formed (IndexDirectory pdfs) = True"

fun entries :: "operation \<Rightarrow> (string \<times> meta) list" where
  "entries (AddDocuments texts metadatas) = zip texts metadatas"
| "entries (IndexDirectory pdfs) =
     map (\<lambda>(name, pages). (join_nl pages, [(''source'', name)])) pdfs"

text \<open>The store as \<^verbatim>\<open>_save_index\<close> leaves it for a given object.\<close>

definition saved_image :: "rag_manager \<Rightarrow> store" where
  "saved_image self =
     \<lparr>faiss_index = Content (vectors self),
      documents_txt = Content (join_nl (documents self)),
      metadata_txt = Content (metadata self)\<rparr>"

text \<open>The state \<open>st'\<close> is the state \<open>st\<close> with the entries \<open>es\<close> appended: their chunks to the
  texts, their metadata to the metadata, the embeddings of their chunks to the vectors; and
  unless nothing happened at all, the store is the saved image of the object.\<close>

definition appended ::
  "(string \<Rightarrow> vec option) \<Rightarrow> (string \<Rightarrow> string) \<Rightarrow> (string \<times> meta) list \<Rightarrow>
     rag_manager \<times> store \<Rightarrow> rag_manager \<times> store \<Rightarrow> bool" where
  "appended model chunk es st st' =
     (documents (fst st') = documents (fst st) @ map (\<lambda>e. chunk (fst e)) es \<and>
      metadata (fst st') = metadata (fst st) @ map snd es \<and>
      (\<exists>E. vectors (fst st') = vectors (fst st) @ E \<and>
           map model (map (\<lambda>e. chunk (fst e)) es) = map Some E) \<and>
      (st' = st \<or> (index (fst st') \<noteq> None \<and> snd st' = saved_image (fst st'))))"

text \<open>A deterministic embedder for the examples: the capability is unavailable for one
  distinguished text, and every other text is mapped to a vector of dimension two.\<close>

definition stub_model :: "string \<Rightarrow> vec option" where
  "stub_model s = (if s = ''unreachable'' then None else Some [real (length s), 1])"

text \<open>A manager with three stored entries, for the examples.\<close>

definition example_manager :: rag_manager where
  "example_manager =
     \<lparr>index = Some [[2, 1], [5, 1], [4, 1]],
      documents = [''ab'', ''hello'', ''four''],
      metadata = [[(''source'', ''a.pdf'')], [(''source'', ''b.pdf'')], [(''source'', ''c.pdf'')]]\<rparr>"

section \<open>Properties of the chunker\<close>

text \<open>A window whose next start equals its own start is repeated forever: the loop is in the
  same state after the step, so the call never returns.\<close>

lemma chunk_loop_stuck_aux:
  assumes r: "chunk_loop t' cs' ov' s' chs = Some y"
    and lt: "s < int (length t)" and fx: "window_end t cs s - ov = s"
  shows "\<not> (t' = t \<and> cs' = cs \<and> ov' = ov \<and> s' = s)"
proof (rule chunk_loop.raw_induct
    [where P = "\<lambda>a b c d e r. \<not> (a = t \<and> b = cs \<and> c = ov \<and> d = s)", OF _ r])
  fix f a b c d e r
  assume ih: "\<And>a b c d e r. f a b c d e = Some r \<Longrightarrow> \<not> (a = t \<and> b = cs \<and> c = ov \<and> d = s)"
    and st: "(if d < int (length a)
              then f a b c (window_end a b d - c) (e @ [strip (slice a d (window_end a b d))])
              else Some e) = Some r"
  show "\<not> (a = t \<and> b = cs \<and> c = ov \<and> d = s)"
  proof
    assume eq: "a = t \<and> b = cs \<and> c = ov \<and> d = s"
    with st lt fx have "f t cs ov s (e @ [strip (slice t s (window_end t cs s))]) = Some r"
      by simp
    from ih [OF this] show False by simp
  qed
qed

lemma chunk_loop_stuck:
  assumes "s < int (length t)" and "window_end t cs s - ov = s"
  shows "chunk_loop t cs ov s chs = None"
proof (cases "chunk_loop t cs ov s chs")
  case None
  then show ?thesis .
next
  case (Some y)
  from chunk_loop_stuck_aux [OF Some assms] show ?thesis by simp
qed

text \<open>
  Claim C9 (the chunker terminates whenever \<open>chunkSize > 0\<close> and \<open>0 \<le> overlap < chunkSize\<close>).
  The listing does not: for the text \<open>a. b\<close> with \<open>chunk_size = 3\<close> and \<open>overlap = 2\<close> the first
  window \<open>[0, 3)\<close> contains the terminator \<open>. \<close> at position 1, the cut moves back to 2, and the
  next start is \<open>2 - 2 = 0\<close> again.  The call never returns.
\<close>

theorem chunk_text_no_progress: "chunk_text ''a. b'' 3 2 = None"
proof -
  have "window_end ''a. b'' 3 0 - 2 = 0"
    by code_simp
  then show ?thesis
    unfolding chunk_text_def by (intro chunk_loop_stuck) simp_all
qed

lemma rfind_bound:
  "rfind t sub a b = - 1 \<or> rfind t sub a b + int (length sub) \<le> int (length t)"
proof -
  define n where "n = int (length t)"
  define s where "s = norm_index n a"
  define e where "e = norm_index n b"
  define cand where "cand = filter (\<lambda>i. take (length sub) (drop i t) = sub)
                     (rev [nat s ..< nat (e - int (length sub) + 1)])"
  have r: "rfind t sub a b = (case cand of [] \<Rightarrow> - 1 | i # _ \<Rightarrow> int i)"
    by (simp add: rfind_def Let_def cand_def s_def e_def n_def)
  have en: "e \<le> n"
    by (simp add: e_def norm_index_def n_def)
  show ?thesis
  proof (cases cand)
    case Nil
    with r show ?thesis by simp
  next
    case (Cons i rest)
    then have "i \<in> set cand" by simp
    then have "i < nat (e - int (length sub) + 1)"
      by (auto simp: cand_def)
    with en have "int i + int (length sub) \<le> n" by linarith
    with r Cons show ?thesis by (simp add: n_def)
  qed
qed

lemma find_boundary_bound:
  assumes "list_all (\<lambda>c. length c = 2) cs"
  shows "find_boundary t s e cs = e \<or> find_boundary t s e cs < int (length t)"
  using assms
proof (induction cs)
  case Nil
  then show ?case by simp
next
  case (Cons c cs)
  then have c: "length c = 2" and rest: "list_all (\<lambda>c. length c = 2) cs" by simp_all
  show ?case
  proof (cases "rfind t c s e = - 1")
    case True
    with Cons.IH [OF rest] show ?thesis by (simp add: Let_def)
  next
    case False
    with rfind_bound [of t c s e] c have "rfind t c s e + 1 < int (length t)" by simp
    with False show ?thesis by (simp add: Let_def)
  qed
qed

lemma window_end_bound:
  "window_end t cs s = s + cs \<or> window_end t cs s < int (length t)"
  using find_boundary_bound [of terminators t s "s + cs"]
  by (auto simp: window_end_def Let_def terminators_def)

text \<open>With \<open>overlap \<ge> chunk_size\<close> and \<open>overlap \<ge> 0\<close> the next start stays below the length of
  the text, whichever way the window was cut.\<close>

lemma next_start_below:
  assumes "s < int (length t)" and "cs \<le> ov" and "0 \<le> ov"
  shows "window_end t cs s - ov < int (length t)"
  using window_end_bound [of t cs s] assms by linarith

lemma chunk_loop_overlap_aux:
  assumes r: "chunk_loop t cs ov s chs = Some y"
  shows "\<not> (cs \<le> ov \<and> 0 \<le> ov \<and> s < int (length t))"
proof (rule chunk_loop.raw_induct
    [where P = "\<lambda>a b c d e r. \<not> (b \<le> c \<and> 0 \<le> c \<and> d < int (length a))", OF _ r])
  fix f a b c d e r
  assume ih: "\<And>a b c d e r. f a b c d e = Some r \<Longrightarrow> \<not> (b \<le> c \<and> 0 \<le> c \<and> d < int (length a))"
    and st: "(if d < int (length a)
              then f a b c (window_end a b d - c) (e @ [strip (slice a d (window_end a b d))])
              else Some e) = Some r"
  show "\<not> (b \<le> c \<and> 0 \<le> c \<and> d < int (length a))"
  proof
    assume h: "b \<le> c \<and> 0 \<le> c \<and> d < int (length a)"
    with st have "f a b c (window_end a b d - c) (e @ [strip (slice a d (window_end a b d))]) = Some r"
      by simp
    from ih [OF this] h next_start_below [of d a b c] show False by simp
  qed
qed

text \<open>
  Claim C10 (a configuration with \<open>overlap \<ge> chunkSize\<close> is rejected with a ConfigurationError
  before any work, rather than looping indefinitely).  The listing checks nothing and raises
  nothing.  With \<open>overlap \<ge> chunk_size\<close> and \<open>overlap \<ge> 0\<close> it returns the empty list for the
  empty text and never returns for any other text: the next start is \<open>end - overlap\<close>, which
  stays below the length of the text.  So does \<^verbatim>\<open>chunk_text("abc", 2, 2)\<close>, whose start stays
  at 0.
\<close>

theorem chunk_text_overlap_never_returns:
  assumes "chunk_size \<le> overlap" and "0 \<le> overlap"
  shows "chunk_text t chunk_size overlap = (if t = [] then Some [] else None)"
proof (cases "t = []")
  case True
  then show ?thesis by (simp add: chunk_text_def chunk_loop.simps)
next
  case False
  then have l: "0 < int (length t)" by simp
  have "chunk_loop t chunk_size overlap 0 [] = None"
  proof (cases "chunk_loop t chunk_size overlap 0 []")
    case None
    then show ?thesis .
  next
    case (Some y)
    from chunk_loop_overlap_aux [OF Some] assms l show ?thesis by simp
  qed
  with False show ?thesis by (simp add: chunk_text_def)
qed

theorem chunk_text_overlap_never_returns_witness:
  "(2::int) \<le> 2 \<and> (0::int) \<le> 2 \<and> chunk_text ''abc'' 2 2 = None \<and> chunk_text [] 2 2 = Some []"
  using chunk_text_overlap_never_returns [of 2 2 "''abc''"]
    chunk_text_overlap_never_returns [of 2 2 "[]"]
  by simp


section \<open>Properties of the floating-point score\<close>

lemma rne_bounds: "\<lfloor>q\<rfloor> \<le> rne q \<and> rne q \<le> \<lfloor>q\<rfloor> + 1"
  by (simp add: rne_def Let_def)

lemma rne_of_int [simp]: "rne (of_int n) = n"
  by (simp add: rne_def)

lemma rne_mono: assumes "a \<le> b" shows "rne a \<le> rne b"
proof (cases "\<lfloor>a\<rfloor> = \<lfloor>b\<rfloor>")
  case True
  with assms show ?thesis by (auto simp: rne_def Let_def)
next
  case False
  with assms have "\<lfloor>a\<rfloor> < \<lfloor>b\<rfloor>" by (simp add: floor_mono order.strict_iff_order)
  with rne_bounds [of a] rne_bounds [of b] show ?thesis by linarith
qed

lemma rne_ge: "of_int n \<le> q \<Longrightarrow> n \<le> rne q"
  using rne_mono [of "of_int n" q] by simp

lemma rne_le: "q \<le> of_int n \<Longrightarrow> rne q \<le> n"
  using rne_mono [of q "of_int n"] by simp

lemma ulp_pos: "0 < ulp p x"
  by (simp add: ulp_def)

lemma ulp_eq:
  assumes "2 powr of_int e \<le> x" and "x < 2 powr of_int (e + 1)"
  shows "ulp p x = 2 powr of_int (e - int p + 1)"
proof -
  have "0 < x" using assms(1) powr_gt_zero [of 2 "of_int e"] by linarith
  then have "\<lfloor>log 2 x\<rfloor> = e"
    using assms by (simp add: floor_log_eq_powr_iff)
  then show ?thesis by (simp add: ulp_def)
qed

lemma binade:
  assumes "0 < x"
  shows "2 powr of_int \<lfloor>log 2 x\<rfloor> \<le> x \<and> x < 2 powr of_int (\<lfloor>log 2 x\<rfloor> + 1)"
  using floor_log_eq_powr_iff [of x 2 "\<lfloor>log 2 x\<rfloor>"] assms by simp

text \<open>Within its binade \<open>[2^e, 2^(e+1))\<close> a positive number is rounded into \<open>[2^e, 2^(e+1)]\<close>.\<close>

lemma round_to_binade:
  assumes x: "0 < x" and p: "1 \<le> p"
  shows "2 powr of_int \<lfloor>log 2 x\<rfloor> \<le> round_to p x \<and>
         round_to p x \<le> 2 powr of_int (\<lfloor>log 2 x\<rfloor> + 1)"
proof -
  define e where "e = \<lfloor>log 2 x\<rfloor>"
  define u where "u = ulp p x"
  have u: "u = 2 powr of_int (e - int p + 1)" "0 < u"
    by (simp_all add: u_def ulp_def e_def)
  from binade [OF x] have b: "2 powr of_int e \<le> x" "x < 2 powr of_int (e + 1)"
    by (simp_all add: e_def)
  have lo: "2 powr of_int e = of_int (2 ^ (p - 1)) * u"
  proof -
    have "of_int (2 ^ (p - 1)) = (2::real) powr of_int (int p - 1)"
      using p by (simp add: powr_realpow [symmetric] of_nat_diff)
    then show ?thesis
      unfolding u by (simp add: powr_add [symmetric])
  qed
  have hi: "2 powr of_int (e + 1) = of_int (2 ^ p) * u"
  proof -
    have "of_int (2 ^ p) = (2::real) powr of_int (int p)"
      by (simp add: powr_realpow [symmetric])
    then show ?thesis
      unfolding u by (simp add: powr_add [symmetric])
  qed
  from b(1) lo u(2) have "of_int (2 ^ (p - 1)) \<le> x / u"
    by (simp add: pos_le_divide_eq)
  then have l: "2 ^ (p - 1) \<le> rne (x / u)" by (rule rne_ge)
  from b(2) hi u(2) have "x / u \<le> of_int (2 ^ p)"
    by (simp add: pos_divide_le_eq)
  then have h: "rne (x / u) \<le> 2 ^ p" by (rule rne_le)
  have r: "round_to p x = of_int (rne (x / u)) * u"
    using x by (simp add: round_to_def u_def)
  from l have "of_int (2 ^ (p - 1)) * u \<le> of_int (rne (x / u)) * u"
    using u(2) by (simp only: mult_le_cancel_right_pos of_int_le_iff)
  moreover from h have "of_int (rne (x / u)) * u \<le> of_int (2 ^ p) * u"
    using u(2) by (simp only: mult_le_cancel_right_pos of_int_le_iff)
  ultimately show ?thesis
    unfolding r lo hi e_def [symmetric] by simp
qed

lemma round_to_pos: "0 < x \<Longrightarrow> 1 \<le> p \<Longrightarrow> 0 < round_to p x"
  using round_to_binade [of x p] powr_gt_zero [of 2 "of_int \<lfloor>log 2 x\<rfloor>"] by linarith

lemma round_to_mono:
  assumes x: "0 < x" and xy: "x \<le> y" and p: "1 \<le> p"
  shows "round_to p x \<le> round_to p y"
proof -
  from x xy have y: "0 < y" by simp
  have le: "\<lfloor>log 2 x\<rfloor> \<le> \<lfloor>log 2 y\<rfloor>"
    using x xy by (intro floor_mono) simp
  show ?thesis
  proof (cases "\<lfloor>log 2 x\<rfloor> = \<lfloor>log 2 y\<rfloor>")
    case True
    then have u: "ulp p x = ulp p y" by (simp add: ulp_def)
    have "x / ulp p y \<le> y / ulp p y"
      using xy ulp_pos [of p y] by (simp add: divide_right_mono)
    then have "rne (x / ulp p y) \<le> rne (y / ulp p y)" by (rule rne_mono)
    then have "of_int (rne (x / ulp p y)) * ulp p y \<le> of_int (rne (y / ulp p y)) * ulp p y"
      using ulp_pos [of p y] by (simp only: mult_le_cancel_right_pos of_int_le_iff)
    with x y u show ?thesis by (simp add: round_to_def)
  next
    case False
    with le have "\<lfloor>log 2 x\<rfloor> + 1 \<le> \<lfloor>log 2 y\<rfloor>" by simp
    then have "(2::real) powr of_int (\<lfloor>log 2 x\<rfloor> + 1) \<le> 2 powr of_int \<lfloor>log 2 y\<rfloor>"
      by (simp only: powr_le_cancel_iff of_int_le_iff) 
    with round_to_binade [OF x p] round_to_binade [OF y p] show ?thesis by linarith
  qed
qed

lemma round_to_power_of_two:
  assumes "1 \<le> p"
  shows "round_to p (2 powr of_int k) = 2 powr of_int k"
proof -
  have x: "(0::real) < 2 powr of_int k" by simp
  have e: "\<lfloor>log 2 (2 powr of_int k)\<rfloor> = k" by simp
  have u: "ulp p (2 powr of_int k) = 2 powr of_int (k - int p + 1)"
    by (simp add: ulp_def)
  have "2 powr of_int k / 2 powr of_int (k - int p + 1) = (2::real) powr of_int (int p - 1)"
    by (simp add: powr_diff [symmetric])
  also have "\<dots> = of_int (2 ^ (p - 1))"
    using assms by (simp add: powr_realpow [symmetric] of_nat_diff)
  finally have q:
    "2 powr of_int k / 2 powr of_int (k - int p + 1) = (of_int (2 ^ (p - 1)) :: real)" .
  have "round_to p (2 powr of_int k) =
      of_int (rne (2 powr of_int k / ulp p (2 powr of_int k))) * ulp p (2 powr of_int k)"
    using x by (simp add: round_to_def)
  also have "\<dots> = of_int (2 ^ (p - 1)) * 2 powr of_int (k - int p + 1)"
    by (simp only: u q rne_of_int)
  also have "\<dots> = 2 powr of_int (int p - 1) * 2 powr of_int (k - int p + 1)"
    using assms by (simp add: powr_realpow [symmetric] of_nat_diff)
  also have "\<dots> = 2 powr of_int k"
    by (simp add: powr_add [symmetric])
  finally show ?thesis .
qed

lemma round_to_one: "1 \<le> p \<Longrightarrow> round_to p 1 = 1"
  using round_to_power_of_two [of p 0] by simp


lemma round_to_eval:
  assumes "2 powr of_int e \<le> x" and "x < 2 powr of_int (e + 1)"
  shows "round_to p x =
    of_int (rne (x / 2 powr of_int (e - int p + 1))) * 2 powr of_int (e - int p + 1)"
proof -
  have "0 < x" using assms(1) powr_gt_zero [of 2 "of_int e"] by linarith
  with ulp_eq [OF assms, of p] show ?thesis by (simp add: round_to_def)
qed

lemma score_of_range: assumes "0 \<le> d" shows "0 < score_of d \<and> score_of d \<le> 1"
proof -
  have a: "1 \<le> round_to 53 (1 + d)"
    using round_to_mono [of 1 "1 + d" 53] assms by (simp add: round_to_one)
  then have b: "0 < 1 / round_to 53 (1 + d)" "1 / round_to 53 (1 + d) \<le> 1"
    by simp_all
  from round_to_pos [OF b(1), of 53] round_to_mono [OF b(1) b(2), of 53] show ?thesis
    by (simp add: score_of_def round_to_one)
qed

lemma score_of_zero: "score_of 0 = 1"
  by (simp add: score_of_def round_to_one)

lemma score_of_antimono: assumes "0 \<le> d" and "d \<le> e" shows "score_of e \<le> score_of d"
proof -
  have one: "1 \<le> round_to 53 (1 + d)"
    using round_to_mono [of 1 "1 + d" 53] assms by (simp add: round_to_one)
  have le: "round_to 53 (1 + d) \<le> round_to 53 (1 + e)"
    using assms by (intro round_to_mono) simp_all
  from one le have "1 / round_to 53 (1 + e) \<le> 1 / round_to 53 (1 + d)"
    by (simp add: frac_le)
  moreover from one le have "0 < 1 / round_to 53 (1 + e)" by simp
  ultimately show ?thesis
    unfolding score_of_def by (intro round_to_mono) simp_all
qed

lemma round_near_one: "round_to 53 (1 + 1 / 2 ^ 60) = 1"
proof -
  have "round_to 53 (1 + 1 / 2 ^ 60) =
      of_int (rne ((1 + 1 / 2 ^ 60) / 2 powr of_int (0 - int 53 + 1))) * 2 powr of_int (0 - int 53 + 1)"
    by (rule round_to_eval) simp_all
  also have "(2::real) powr of_int (0 - int 53 + 1) = 1 / 2 ^ 52"
    by (simp add: powr_minus_divide)
  also have "rne ((1 + 1 / 2 ^ 60) / (1 / 2 ^ 52)) = 2 ^ 52"
    by (simp add: rne_def Let_def)
  finally show ?thesis by simp
qed

lemma score_of_tiny: "score_of (1 / 2 ^ 60) = 1"
  unfolding score_of_def round_near_one by (simp add: round_to_one)

lemma score_of_one: "score_of 1 = 1 / 2"
proof -
  have "round_to 53 (1 + 1) = 2"
    using round_to_power_of_two [of 53 1] by simp
  moreover have "round_to 53 (1 / 2) = 1 / 2"
    using round_to_power_of_two [of 53 "- 1"] by (simp add: powr_minus_divide)
  ultimately show ?thesis by (simp add: score_of_def)
qed


section \<open>Properties of the persistence layer\<close>

lemmas store_defs = setup_rag_def RAGManager_def load_index_def add_documents_def
  save_index_def vectors_def stub_model_def strip_def is_space_def empty_store_def

lemma split_nl_no_newline: "CHR 0x0A \<notin> set s \<Longrightarrow> split_nl s = [s]"
  by (induction s) auto

lemma split_nl_append:
  "CHR 0x0A \<notin> set x \<Longrightarrow> split_nl (x @ CHR 0x0A # r) = x # split_nl r"
  by (induction x) auto

text \<open>Joining and splitting give the list back when it is not empty and no entry contains a
  line feed.\<close>

lemma split_join_nl:
  "xs \<noteq> [] \<Longrightarrow> list_all (\<lambda>d. CHR 0x0A \<notin> set d) xs \<Longrightarrow> split_nl (join_nl xs) = xs"
proof (induction xs rule: join_nl.induct)
  case 1
  then show ?case by simp
next
  case (2 x)
  then show ?case by (simp add: split_nl_no_newline)
next
  case (3 x y ys)
  then show ?case by (simp add: split_nl_append)
qed

text \<open>A text without carriage return is read as it was written.\<close>

lemma universal_newlines_id: "CHR 0x0D \<notin> set s \<Longrightarrow> universal_newlines s = s"
  by (induction s rule: universal_newlines.induct) auto

lemma join_nl_no_cr:
  "list_all (\<lambda>d. CHR 0x0D \<notin> set d) xs \<Longrightarrow> CHR 0x0D \<notin> set (join_nl xs)"
  by (induction xs rule: join_nl.induct) auto

text \<open>
  Claim C2 (saving and reloading restores the same texts, metadata and vectors, so every query
  gives the same results; chunk texts with embedded newlines survive because newlines are
  escaped or removed before joining).  The listing joins the chunks with a line feed and
  splits the file at every line feed, without escaping.  Indexing one PDF of two pages stores
  the single chunk \<open>p1\<newline>p2\<close> (the chunker of the guide keeps a line feed inside a
  passage, it only strips the ends); after the reload there are two texts \<open>p1\<close> and \<open>p2\<close>
  for one vector, and the same query returns the text \<open>p1\<close> instead of \<open>p1\<newline>p2\<close>.
\<close>

theorem save_load_splits_multiline_chunk:
  "chunk_text (''p1'' @ CHR 0x0A # ''p2'') 500 50 = Some [''p1'' @ CHR 0x0A # ''p2''] \<and>
   index_directory stub_model strip [(''a.pdf'', [''p1'', ''p2''])]
     (\<lparr>index = None, documents = [], metadata = []\<rparr>, empty_store)
   = (None,
      \<lparr>index = Some [[5, 1]], documents = [''p1'' @ CHR 0x0A # ''p2''],
       metadata = [[(''source'', ''a.pdf'')]]\<rparr>,
      \<lparr>faiss_index = Content [[5, 1]], documents_txt = Content (''p1'' @ CHR 0x0A # ''p2''),
       metadata_txt = Content [[(''source'', ''a.pdf'')]]\<rparr>) \<and>
   RAGManager \<lparr>faiss_index = Content [[5, 1]], documents_txt = Content (''p1'' @ CHR 0x0A # ''p2''),
       metadata_txt = Content [[(''source'', ''a.pdf'')]]\<rparr>
   = Inr \<lparr>index = Some [[5, 1]], documents = [''p1'', ''p2''],
          metadata = [[(''source'', ''a.pdf'')]]\<rparr> \<and>
   retrieve stub_model
     \<lparr>index = Some [[5, 1]], documents = [''p1'' @ CHR 0x0A # ''p2''],
      metadata = [[(''source'', ''a.pdf'')]]\<rparr> ''query'' 1
   = Inr [\<lparr>res_text = ''p1'' @ CHR 0x0A # ''p2'', res_score = 1,
           res_metadata = [(''source'', ''a.pdf'')]\<rparr>] \<and>
   retrieve stub_model
     \<lparr>index = Some [[5, 1]], documents = [''p1'', ''p2''],
      metadata = [[(''source'', ''a.pdf'')]]\<rparr> ''query'' 1
   = Inr [\<lparr>res_text = ''p1'', res_score = 1, res_metadata = [(''source'', ''a.pdf'')]\<rparr>]"
proof (rule conjI)
  show "chunk_text (''p1'' @ CHR 0x0A # ''p2'') 500 50 = Some [''p1'' @ CHR 0x0A # ''p2'']"
    by code_simp
qed (simp add: store_defs retrieve_def search_def ranked_def all_hits_def l2sq_def
      score_of_zero score_of_one py_index_def)

text \<open>
  Claim C3 (a build with \<open>force = true\<close> leaves no entry of the previously persisted index).
  \<^verbatim>\<open>setup_rag\<close> constructs a \<^verbatim>\<open>RAGManager\<close>, whose constructor loads the persisted index, and
  then indexes the directory on top of it.  With the entry of \<open>old.pdf\<close> persisted and only
  \<open>new.pdf\<close> in the directory, the store after \<^verbatim>\<open>--reindex\<close> still holds the entry of
  \<open>old.pdf\<close>, followed by the new one.
\<close>

theorem setup_rag_reindex_keeps_stale:
  "setup_rag stub_model strip True [(''new.pdf'', [''newer''])]
     \<lparr>faiss_index = Content [[3, 1]], documents_txt = Content ''old'',
      metadata_txt = Content [[(''source'', ''old.pdf'')]]\<rparr>
   = (None,
      \<lparr>faiss_index = Content [[3, 1], [5, 1]],
       documents_txt = Content (''old'' @ CHR 0x0A # ''newer''),
       metadata_txt = Content [[(''source'', ''old.pdf'')], [(''source'', ''new.pdf'')]]\<rparr>)"
  by (simp add: store_defs)

text \<open>
  Claim C4 (after a cold start, and for an index that was never built, \<^verbatim>\<open>retrieve\<close> returns
  the empty list without raising).  On a store without \<^verbatim>\<open>faiss.index\<close> the constructor
  succeeds and leaves \<^verbatim>\<open>self.index\<close> at \<open>None\<close>; \<^verbatim>\<open>retrieve\<close> then calls \<^verbatim>\<open>search\<close> on
  \<open>None\<close>, which raises \<open>AttributeError\<close>.  (\<^verbatim>\<open>add_documents\<close> does test
  \<^verbatim>\<open>self.index is None\<close>; \<^verbatim>\<open>retrieve\<close> does not.)
\<close>

theorem retrieve_cold_start_raises:
  "RAGManager empty_store = Inr \<lparr>index = None, documents = [], metadata = []\<rparr> \<and>
   retrieve (\<lambda>q. Some [1, 0]) \<lparr>index = None, documents = [], metadata = []\<rparr> ''Wartung'' 3
     = Inl AttributeError"
  by (simp add: RAGManager_def load_index_def empty_store_def retrieve_def)





text \<open>
  Claim C6 (load fails with a CorruptIndexError when the vector count, the number of text
  lines and the metadata count disagree).  \<^verbatim>\<open>_load_index\<close> compares nothing: with one
  vector, two text lines and one metadata entry it succeeds.
\<close>

theorem load_index_accepts_disagreeing_counts:
  "load_index \<lparr>index = None, documents = [], metadata = []\<rparr>
     \<lparr>faiss_index = Content [[1, 0]],
      documents_txt = Content [CHR ''a'', CHR 0x0A, CHR ''b''],
      metadata_txt = Content [[(''source'', ''a.pdf'')]]\<rparr>
   = Inr \<lparr>index = Some [[1, 0]], documents = [''a'', ''b''],
          metadata = [[(''source'', ''a.pdf'')]]\<rparr>"
  by (simp add: load_index_def)

text \<open>
  Claim C6, as amended: load makes no count comparison and has no CorruptIndexError.  When the
  vector file does not exist, load leaves the object as it is.  Otherwise load fails exactly
  when one of the three artifacts is missing or cannot be read; when all three can be read it
  succeeds, whether or not their counts agree, and installs the stored vectors, the lines of
  the text file as the text-mode read delivers them (a carriage return ends a line as a line
  feed does), and the stored metadata list.
\<close>

theorem load_index_no_count_check:
  "(faiss_index fs = Missing \<longrightarrow> load_index self fs = Inr self) \<and>
   (\<forall>vs txt md.
      faiss_index fs = Content vs \<and> documents_txt fs = Content txt \<and>
      metadata_txt fs = Content md \<longrightarrow>
      load_index self fs =
        Inr (self\<lparr>index := Some vs, documents := split_nl (universal_newlines txt),
                  metadata := md\<rparr>)) \<and>
   ((\<exists>e. load_index self fs = Inl e) \<longleftrightarrow>
      faiss_index fs \<noteq> Missing \<and>
      \<not> (readable (faiss_index fs) \<and> readable (documents_txt fs) \<and>
         readable (metadata_txt fs)))"
proof (intro conjI)
  show "faiss_index fs = Missing \<longrightarrow> load_index self fs = Inr self"
    by (simp add: load_index_def)
  show "\<forall>vs txt md.
      faiss_index fs = Content vs \<and> documents_txt fs = Content txt \<and>
      metadata_txt fs = Content md \<longrightarrow>
      load_index self fs =
        Inr (self\<lparr>index := Some vs, documents := split_nl (universal_newlines txt),
                  metadata := md\<rparr>)"
    by (simp add: load_index_def)
  show "(\<exists>e. load_index self fs = Inl e) \<longleftrightarrow>
      faiss_index fs \<noteq> Missing \<and>
      \<not> (readable (faiss_index fs) \<and> readable (documents_txt fs) \<and>
         readable (metadata_txt fs))"
    by (cases "faiss_index fs"; cases "documents_txt fs"; cases "metadata_txt fs")
      (simp_all add: load_index_def)
qed

theorem load_index_no_count_check_witness:
  "load_index \<lparr>index = None, documents = [], metadata = []\<rparr>
     \<lparr>faiss_index = Content [[1, 0], [0, 1]],
      documents_txt = Content [CHR ''a'', CHR 0x0D, CHR 0x0A, CHR ''b'', CHR 0x0D, CHR ''c''],
      metadata_txt = Content [[(''source'', ''a.pdf'')], [(''source'', ''b.pdf'')]]\<rparr>
   = Inr \<lparr>index = Some [[1, 0], [0, 1]], documents = [''a'', ''b'', ''c''],
          metadata = [[(''source'', ''a.pdf'')], [(''source'', ''b.pdf'')]]\<rparr> \<and>
   (\<exists>e. load_index \<lparr>index = None, documents = [], metadata = []\<rparr>
          \<lparr>faiss_index = Content [[1, 0], [0, 1]],
           documents_txt = Content [CHR ''a'', CHR 0x0A, CHR ''b''],
           metadata_txt = Unreadable\<rparr> = Inl e)"
  using load_index_no_count_check
    [of "\<lparr>faiss_index = Content [[1, 0], [0, 1]],
      documents_txt = Content [CHR ''a'', CHR 0x0D, CHR 0x0A, CHR ''b'', CHR 0x0D, CHR ''c''],
      metadata_txt = Content [[(''source'', ''a.pdf'')], [(''source'', ''b.pdf'')]]\<rparr>"
      "\<lparr>index = None, documents = [], metadata = []\<rparr>"]
    load_index_no_count_check
    [of "\<lparr>faiss_index = Content [[1, 0], [0, 1]],
           documents_txt = Content [CHR ''a'', CHR 0x0A, CHR ''b''],
           metadata_txt = Unreadable\<rparr>"
      "\<lparr>index = None, documents = [], metadata = []\<rparr>"]
  by simp

section \<open>Properties of search and retrieval\<close>

lemma set_rank_insert: "set (rank_insert h xs) = insert h (set xs)"
  by (induction xs) auto

lemma length_rank_insert: "length (rank_insert h xs) = Suc (length xs)"
  by (induction xs) auto

lemma sorted_rank_insert:
  assumes "sorted_wrt closer xs" and "\<forall>x\<in>set xs. fst x < fst h"
  shows "sorted_wrt closer (rank_insert h xs)"
  using assms
proof (induction xs)
  case Nil
  then show ?case by simp
next
  case (Cons x xs)
  obtain i d where x: "x = (i, d)" by (cases x)
  obtain j e where h: "h = (j, e)" by (cases h)
  show ?case
  proof (cases "snd x \<le> snd h")
    case True
    with Cons x h show ?thesis
      by (auto simp: set_rank_insert)
  next
    case False
    with Cons.prems x h show ?thesis
      by (fastforce)
  qed
qed

lemma foldl_rank_insert:
  assumes "sorted_wrt closer acc"
    and "\<forall>a\<in>set acc. \<forall>h\<in>set hs. fst a < fst h"
    and "sorted_wrt (\<lambda>a b. fst a < fst b) hs"
  shows "sorted_wrt closer (foldl (\<lambda>acc h. rank_insert h acc) acc hs) \<and>
         set (foldl (\<lambda>acc h. rank_insert h acc) acc hs) = set acc \<union> set hs \<and>
         length (foldl (\<lambda>acc h. rank_insert h acc) acc hs) = length acc + length hs"
  using assms
proof (induction hs arbitrary: acc)
  case Nil
  then show ?case by simp
next
  case (Cons h hs)
  have s: "sorted_wrt closer (rank_insert h acc)"
    using Cons.prems by (intro sorted_rank_insert) auto
  have o: "\<forall>a\<in>set (rank_insert h acc). \<forall>h'\<in>set hs. fst a < fst h'"
    using Cons.prems by (auto simp: set_rank_insert)
  have t: "sorted_wrt (\<lambda>a b. fst a < fst b) hs"
    using Cons.prems by simp
  from Cons.IH [OF s o t] show ?case
    by (auto simp: set_rank_insert length_rank_insert)
qed

lemma ranked_props:
  assumes "sorted_wrt (\<lambda>a b. fst a < fst b) hs"
  shows "sorted_wrt closer (ranked hs)" and "set (ranked hs) = set hs"
    and "length (ranked hs) = length hs"
  using foldl_rank_insert [of "[]" hs] assms by (simp_all add: ranked_def)

lemma all_hits_ordinals: "sorted_wrt (\<lambda>a b. fst a < fst b) (all_hits vs q)"
proof -
  have "sorted_wrt (<) (map fst (all_hits vs q))"
    by (simp add: all_hits_def sorted_wrt_map strict_mono_on_def)
  then show ?thesis by (simp add: sorted_wrt_map)
qed

lemma length_all_hits: "length (all_hits vs q) = length vs"
  by (simp add: all_hits_def)

lemma all_hits_map: "all_hits vs q = map (\<lambda>i. (int i, l2sq q (vs ! i))) [0 ..< length vs]"
  by (rule nth_equalityI) (simp_all add: all_hits_def)

lemma set_all_hits: "set (all_hits vs q) = (\<lambda>i. (int i, l2sq q (vs ! i))) ` {..<length vs}"
  by (auto simp: all_hits_map)

lemma l2sq_nonneg: "0 \<le> l2sq u v"
  unfolding l2sq_def by (rule sum_list_nonneg) auto

lemma l2sq_self: "l2sq v v = 0"
  unfolding l2sq_def by (induction v) auto

lemma l2sq_zero_iff: "length u = length v \<Longrightarrow> l2sq u v = 0 \<longleftrightarrow> u = v"
proof (induction u v rule: list_induct2)
  case Nil
  then show ?case by (simp add: l2sq_def)
next
  case (Cons x xs y ys)
  have nn: "0 \<le> l2sq xs ys" by (rule l2sq_nonneg)
  have "l2sq (x # xs) (y # ys) = (x - y)\<^sup>2 + l2sq xs ys"
    by (simp add: l2sq_def)
  moreover have "(x - y)\<^sup>2 + l2sq xs ys = 0 \<longleftrightarrow> (x - y)\<^sup>2 = 0 \<and> l2sq xs ys = 0"
    using nn by (intro add_nonneg_eq_0_iff) auto
  ultimately show ?case using Cons by simp
qed

lemma py_index_ordinal:
  "0 \<le> i \<Longrightarrow> py_index xs i = Inr t \<Longrightarrow> t = xs ! nat i"
  by (auto simp: py_index_def split: if_splits)

lemma py_index_in_range:
  "0 \<le> i \<Longrightarrow> i < int (length xs) \<Longrightarrow> py_index xs i = Inr (xs ! nat i)"
  by (simp add: py_index_def)

lemma format_results_Inr:
  assumes "format_results self hits = Inr rs" and "list_all (\<lambda>h. 0 \<le> fst h) hits"
  shows "rs = map (\<lambda>(i, d). \<lparr>res_text = documents self ! nat i, res_score = score_of d,
                              res_metadata = metadata self ! nat i\<rparr>) hits"
  using assms
proof (induction hits arbitrary: rs)
  case Nil
  then show ?case by simp
next
  case (Cons h hits)
  obtain i d where h: "h = (i, d)" by (cases h)
  from Cons.prems h obtain t m rs' where
    p: "py_index (documents self) i = Inr t" "py_index (metadata self) i = Inr m"
      "format_results self hits = Inr rs'"
      "rs = \<lparr>res_text = t, res_score = score_of d, res_metadata = m\<rparr> # rs'"
    by (auto split: sum.splits)
  from Cons.prems h have nn: "0 \<le> i" and rest: "list_all (\<lambda>h. 0 \<le> fst h) hits"
    by simp_all
  from py_index_ordinal [OF nn p(1)] py_index_ordinal [OF nn p(2)] Cons.IH [OF p(3) rest] p(4) h
  show ?case by simp
qed

lemma format_results_valid:
  assumes "list_all (\<lambda>h. 0 \<le> fst h \<and> fst h < int (length (documents self)) \<and>
                  fst h < int (length (metadata self))) hits"
  shows "\<exists>rs. format_results self hits = Inr rs"
  using assms
proof (induction hits)
  case Nil
  then show ?case by simp
next
  case (Cons h hits)
  obtain i d where h: "h = (i, d)" by (cases h)
  from Cons obtain rs where "format_results self hits = Inr rs" by auto
  with Cons.prems h show ?case by (simp add: py_index_in_range)
qed

lemma search_hits:
  "list_all (\<lambda>(i, d). 0 \<le> i \<and> i < int (length vs) \<and> d = l2sq q (vs ! nat i)) (search vs q k)"
proof -
  have "set (search vs q k) \<subseteq> set (all_hits vs q)"
    unfolding search_def
    using ranked_props(2) [OF all_hits_ordinals [of vs q]] set_take_subset by fastforce
  then show ?thesis
    by (auto simp: list_all_iff set_all_hits)
qed

lemma search_head:
  assumes k: "1 \<le> k" and i: "i < length vs" and z: "l2sq qv (vs ! i) = 0"
  shows "\<exists>j rest. search vs qv k = (int j, 0) # rest \<and> j \<le> i \<and> j < length vs \<and>
           l2sq qv (vs ! j) = 0 \<and> (\<forall>j'<j. l2sq qv (vs ! j') \<noteq> 0)"
proof -
  note r = ranked_props [OF all_hits_ordinals [of vs qv]]
  from i r(3) have "ranked (all_hits vs qv) \<noteq> []"
    by (auto simp: length_all_hits)
  then obtain h t where ht: "ranked (all_hits vs qv) = h # t"
    by (cases "ranked (all_hits vs qv)") auto
  from k obtain n where n: "nat k = Suc n"
    by (cases "nat k") auto
  have s: "search vs qv k = h # take n t"
    by (simp add: search_def ht n)
  from r(2) ht have "h \<in> set (all_hits vs qv)" by auto
  then obtain j where j: "j < length vs" "h = (int j, l2sq qv (vs ! j))"
    by (auto simp: set_all_hits)
  from r(1) ht have below: "\<forall>y\<in>set t. closer h y" by simp
  have mem: "(int a, l2sq qv (vs ! a)) \<in> set (h # t)" if "a < length vs" for a
    using that r(2) ht by (auto simp: set_all_hits)
  have least: "l2sq qv (vs ! j) = 0 \<and> j \<le> a" if a: "a < length vs" "l2sq qv (vs ! a) = 0" for a
  proof (cases "a = j")
    case True
    with a show ?thesis by simp
  next
    case False
    with mem [OF a(1)] j(2) have "(int a, l2sq qv (vs ! a)) \<in> set t" by auto
    with below j(2) a(2) have "closer (int j, l2sq qv (vs ! j)) (int a, 0)" by auto
    with l2sq_nonneg [of qv "vs ! j"] show ?thesis by auto
  qed
  from least [OF i z] have d0: "l2sq qv (vs ! j) = 0" and ji: "j \<le> i" by simp_all
  have "\<forall>j'<j. l2sq qv (vs ! j') \<noteq> 0"
  proof (intro allI impI notI)
    fix j' assume "j' < j" "l2sq qv (vs ! j') = 0"
    with least [of j'] j(1) show False by simp
  qed
  with s j d0 ji show ?thesis by auto
qed


text \<open>
  Claim C8 (search returns at most \<open>k\<close> results in ascending distance, and entries at equal
  distance in ascending ordinal).  The result has \<open>min k n\<close> entries, it is strictly ascending
  in the order that compares the distance first and the ordinal second, and every entry is
  the ordinal of a stored vector with its distance to the query.  \<^verbatim>\<open>retrieve\<close> returns one
  result per hit, in the order of the hits.
\<close>

theorem search_ranking:
  "length (search vs q k) = min (nat k) (length vs) \<and>
   length (search vs q k) \<le> nat k \<and>
   sorted_wrt closer (search vs q k) \<and>
   list_all (\<lambda>(i, d). 0 \<le> i \<and> i < int (length vs) \<and> d = l2sq q (vs ! nat i)) (search vs q k) \<and>
   (\<forall>self model query rs.
      index self = Some vs \<and> model query = Some q \<and> retrieve model self query k = Inr rs \<longrightarrow>
      length rs \<le> nat k \<and>
      rs = map (\<lambda>(i, d). \<lparr>res_text = documents self ! nat i, res_score = score_of d,
                            res_metadata = metadata self ! nat i\<rparr>) (search vs q k))"
proof -
  note r = ranked_props [OF all_hits_ordinals [of vs q]]
  have len: "length (search vs q k) = min (nat k) (length vs)"
    by (simp add: search_def r(3) length_all_hits)
  have srt: "sorted_wrt closer (search vs q k)"
    unfolding search_def using r(1) by (rule sorted_wrt_take)
  have mem: "list_all (\<lambda>(i, d). 0 \<le> i \<and> i < int (length vs) \<and> d = l2sq q (vs ! nat i))
      (search vs q k)"
    by (rule search_hits)
  from mem have nn: "list_all (\<lambda>h. 0 \<le> fst h) (search vs q k)"
    by (auto simp: list_all_iff)
  have ret: "length rs \<le> nat k \<and>
      rs = map (\<lambda>(i, d). \<lparr>res_text = documents self ! nat i, res_score = score_of d,
                            res_metadata = metadata self ! nat i\<rparr>) (search vs q k)"
    if h: "index self = Some vs" "model query = Some q" "retrieve model self query k = Inr rs"
    for self :: rag_manager and model :: "string \<Rightarrow> vec option" and query rs
  proof -
    from h have "format_results self (search vs q k) = Inr rs"
      by (simp add: retrieve_def)
    from format_results_Inr [OF this nn] len show ?thesis by simp
  qed
  have every: "\<forall>self model query rs.
      index self = Some vs \<and> model query = Some q \<and> retrieve model self query k = Inr rs \<longrightarrow>
      length rs \<le> nat k \<and>
      rs = map (\<lambda>(i, d). \<lparr>res_text = documents self ! nat i, res_score = score_of d,
                            res_metadata = metadata self ! nat i\<rparr>) (search vs q k)"
  proof (intro allI impI)
    fix self :: rag_manager and model :: "string \<Rightarrow> vec option" and query rs
    assume "index self = Some vs \<and> model query = Some q \<and> retrieve model self query k = Inr rs"
    then have "index self = Some vs" "model query = Some q" "retrieve model self query k = Inr rs"
      by simp_all
    then show "length rs \<le> nat k \<and>
      rs = map (\<lambda>(i, d). \<lparr>res_text = documents self ! nat i, res_score = score_of d,
                            res_metadata = metadata self ! nat i\<rparr>) (search vs q k)"
      by (rule ret)
  qed
  have le: "length (search vs q k) \<le> nat k"
    using len by simp
  show ?thesis
    by (intro conjI len le srt mem every)
qed

theorem search_ranking_witness:
  "search [[0, 0], [1, 1], [0, 0], [1, 0]] [1, 0] 3 = [(3, 0), (0, 1), (1, 1)] \<and>
   sorted_wrt closer (search [[0, 0], [1, 1], [0, 0], [1, 0]] [1, 0] 3) \<and>
   retrieve stub_model example_manager ''hello'' 2
   = Inr [\<lparr>res_text = ''hello'', res_score = 1, res_metadata = [(''source'', ''b.pdf'')]\<rparr>,
          \<lparr>res_text = ''four'', res_score = 1 / 2, res_metadata = [(''source'', ''c.pdf'')]\<rparr>]"
  using search_ranking [of "[[0, 0], [1, 1], [0, 0], [1, 0]]" "[1, 0]" 3]
  by (simp add: search_def ranked_def all_hits_def l2sq_def upt_rec example_manager_def
      stub_model_def retrieve_def score_of_zero score_of_one py_index_def)

text \<open>With the same text stored from \<open>a.pdf\<close> and from \<open>b.pdf\<close>, both entries are at distance 0
  from the query with that text, and the ranking of the search puts the one inserted first
  in front.\<close>

lemma retrieve_duplicate_returns_first_inserted:
  "stub_model ''same'' = Some [4, 1] \<and>
   retrieve stub_model
     \<lparr>index = Some [[4, 1], [4, 1]], documents = [''same'', ''same''],
      metadata = [[(''source'', ''a.pdf'')], [(''source'', ''b.pdf'')]]\<rparr> ''same'' 1
   = Inr [\<lparr>res_text = ''same'', res_score = 1, res_metadata = [(''source'', ''a.pdf'')]\<rparr>]"
  by (simp add: stub_model_def retrieve_def search_def ranked_def all_hits_def l2sq_def
      score_of_zero py_index_def)

text \<open>
  Claim C7 (every result carries the score \<open>1 / (1 + d)\<close> for the squared distance \<open>d\<close> of its
  entry; the score is in \<open>(0, 1]\<close>, is 1 exactly at distance 0, falls strictly with the
  distance; a query identical to a stored vector returns that entry first with score 1).
  The score is computed in floating point.  At the distance \<open>2\<^sup>-\<^sup>6\<^sup>0\<close> the sum \<open>1.0 + d\<close> is
  rounded to 1, so the loop of \<^verbatim>\<open>retrieve\<close> gives the score 1 to a hit that is not at distance
  0, the same score as at distance 0: the score is not 1 only at distance 0, and it does not
  fall strictly.  The stored vector \<open>(0)\<close> and the query vector \<open>(2\<^sup>-\<^sup>3\<^sup>0)\<close> are such a pair.
\<close>

theorem score_one_at_positive_distance:
  "(0::real) < 1 / 2 ^ 60 \<and>
   score_of (1 / 2 ^ 60) = 1 \<and>
   score_of 0 = 1 \<and>
   format_results
     \<lparr>index = Some [[0]], documents = [''near''], metadata = [[(''source'', ''a.pdf'')]]\<rparr>
     [(0, 1 / 2 ^ 60)]
   = Inr [\<lparr>res_text = ''near'', res_score = 1, res_metadata = [(''source'', ''a.pdf'')]\<rparr>] \<and>
   l2sq [1 / 2 ^ 30] [0] = 1 / 2 ^ 60 \<and>
   retrieve (\<lambda>q. Some [1 / 2 ^ 30])
     \<lparr>index = Some [[0]], documents = [''near''], metadata = [[(''source'', ''a.pdf'')]]\<rparr>
     ''query'' 1
   = Inr [\<lparr>res_text = ''near'', res_score = 1, res_metadata = [(''source'', ''a.pdf'')]\<rparr>]"
proof -
  have d: "l2sq [1 / 2 ^ 30] [0] = 1 / 2 ^ 60"
    unfolding l2sq_def by (simp add: power2_eq_square)
  have f: "format_results
     \<lparr>index = Some [[0]], documents = [''near''], metadata = [[(''source'', ''a.pdf'')]]\<rparr>
     [(0, 1 / 2 ^ 60)]
   = Inr [\<lparr>res_text = ''near'', res_score = 1, res_metadata = [(''source'', ''a.pdf'')]\<rparr>]"
    unfolding format_results.simps score_of_tiny by (simp add: py_index_def)
  have ah: "all_hits [[0]] v = [(0, l2sq v [0])]" for v
    by (simp add: all_hits_def)
  have rk: "ranked [h] = [h]" for h
    by (simp add: ranked_def)
  have s: "search [[0]] [1 / 2 ^ 30] 1 = [(0, 1 / 2 ^ 60)]"
    unfolding search_def ah rk d by simp
  have r: "retrieve (\<lambda>q. Some [1 / 2 ^ 30])
     \<lparr>index = Some [[0]], documents = [''near''], metadata = [[(''source'', ''a.pdf'')]]\<rparr>
     ''query'' 1
   = Inr [\<lparr>res_text = ''near'', res_score = 1, res_metadata = [(''source'', ''a.pdf'')]\<rparr>]"
    unfolding retrieve_def by (simp only: option.case rag_manager.simps s f)
  have p: "(0::real) < 1 / 2 ^ 60" by simp
  show ?thesis
    by (intro conjI p score_of_tiny score_of_zero f d r)
qed

text \<open>
  Claim C7, as amended: every returned result is built from a hit of the search, with the
  text and metadata at the hit's ordinal and, for the squared distance \<open>d\<close> of the stored
  vector to the query vector, the score \<open>1 / (1 + d)\<close> as floating-point arithmetic computes
  it: the sum rounded, then the quotient rounded.  For every finite distance the score is in
  \<open>(0, 1]\<close>; it is 1 at \<open>d = 0\<close> (distance 0 meaning, for vectors of one dimension, that they
  are identical), and it never rises when \<open>d\<close> grows.  When \<open>top_k \<ge> 1\<close>, the texts and the
  metadata are as many as the vectors, and the query vector is identical to a stored vector,
  the first result has score 1 and is the first inserted entry at distance 0: that entry
  itself unless an earlier entry has the same vector.
\<close>

theorem retrieve_scores_and_exact_match:
  assumes idx: "index self = Some vs" and q: "model query = Some qv"
  shows
    "(\<forall>rs. retrieve model self query k = Inr rs \<longrightarrow>
        rs = map (\<lambda>(i, d). \<lparr>res_text = documents self ! nat i, res_score = score_of d,
                              res_metadata = metadata self ! nat i\<rparr>) (search vs qv k) \<and>
        list_all (\<lambda>(i, d). d = l2sq qv (vs ! nat i)) (search vs qv k) \<and>
        list_all (\<lambda>r. 0 < res_score r \<and> res_score r \<le> 1) rs) \<and>
     (\<forall>d. 0 \<le> d \<longrightarrow>
        score_of d = round_to 53 (1 / round_to 53 (1 + d)) \<and> 0 < score_of d \<and> score_of d \<le> 1) \<and>
     score_of 0 = 1 \<and>
     (\<forall>d e. 0 \<le> d \<and> d \<le> e \<longrightarrow> score_of e \<le> score_of d) \<and>
     (\<forall>u v. length u = length v \<longrightarrow> (l2sq u v = 0) = (u = v)) \<and>
     (\<forall>i. 1 \<le> k \<and> i < length vs \<and> vs ! i = qv \<and>
          length (documents self) = length vs \<and> length (metadata self) = length vs \<longrightarrow>
        (\<exists>j rest. j \<le> i \<and> l2sq qv (vs ! j) = 0 \<and> (\<forall>j'<j. l2sq qv (vs ! j') \<noteq> 0) \<and>
           retrieve model self query k =
             Inr (\<lparr>res_text = documents self ! j, res_score = 1,
                   res_metadata = metadata self ! j\<rparr> # rest)))"
proof -
  let ?mk = "\<lambda>(i, d). \<lparr>res_text = documents self ! nat i, res_score = score_of d,
                         res_metadata = metadata self ! nat i\<rparr>"
  have ret: "retrieve model self query k = format_results self (search vs qv k)"
    using idx q by (simp add: retrieve_def)
  have hits: "list_all (\<lambda>(i, d). 0 \<le> i \<and> i < int (length vs) \<and> d = l2sq qv (vs ! nat i))
      (search vs qv k)"
    by (rule search_hits)
  have nn: "list_all (\<lambda>h. 0 \<le> fst h) (search vs qv k)"
    using hits by (auto simp: list_all_iff)
  have dist: "list_all (\<lambda>(i, d). d = l2sq qv (vs ! nat i)) (search vs qv k)"
    using hits by (auto simp: list_all_iff)
  have a: "\<forall>rs. retrieve model self query k = Inr rs \<longrightarrow>
        rs = map ?mk (search vs qv k) \<and>
        list_all (\<lambda>(i, d). d = l2sq qv (vs ! nat i)) (search vs qv k) \<and>
        list_all (\<lambda>r. 0 < res_score r \<and> res_score r \<le> 1) rs"
  proof (intro allI impI)
    fix rs assume r: "retrieve model self query k = Inr rs"
    with ret have "format_results self (search vs qv k) = Inr rs" by simp
    from format_results_Inr [OF this nn] have m: "rs = map ?mk (search vs qv k)" .
    have "0 < res_score (?mk h) \<and> res_score (?mk h) \<le> 1" if "h \<in> set (search vs qv k)" for h
    proof -
      obtain i d where h: "h = (i, d)" by (cases h)
      with that hits have "d = l2sq qv (vs ! nat i)" by (auto simp: list_all_iff)
      then have "0 \<le> d" by (simp add: l2sq_nonneg)
      from score_of_range [OF this] h show ?thesis by simp
    qed
    then have "list_all (\<lambda>r. 0 < res_score r \<and> res_score r \<le> 1) rs"
      unfolding m by (simp add: list_all_iff)
    with m dist show "rs = map ?mk (search vs qv k) \<and>
        list_all (\<lambda>(i, d). d = l2sq qv (vs ! nat i)) (search vs qv k) \<and>
        list_all (\<lambda>r. 0 < res_score r \<and> res_score r \<le> 1) rs"
      by simp
  qed
  have b: "\<forall>d. 0 \<le> d \<longrightarrow>
        score_of d = round_to 53 (1 / round_to 53 (1 + d)) \<and> 0 < score_of d \<and> score_of d \<le> 1"
    using score_of_range by (simp add: score_of_def)
  have c: "\<forall>d e. 0 \<le> d \<and> d \<le> e \<longrightarrow> score_of e \<le> score_of d"
    using score_of_antimono by blast
  have d: "\<forall>u v. length u = length v \<longrightarrow> (l2sq u v = 0) = (u = v)"
    by (simp add: l2sq_zero_iff)
  have e: "\<forall>i. 1 \<le> k \<and> i < length vs \<and> vs ! i = qv \<and>
          length (documents self) = length vs \<and> length (metadata self) = length vs \<longrightarrow>
        (\<exists>j rest. j \<le> i \<and> l2sq qv (vs ! j) = 0 \<and> (\<forall>j'<j. l2sq qv (vs ! j') \<noteq> 0) \<and>
           retrieve model self query k =
             Inr (\<lparr>res_text = documents self ! j, res_score = 1,
                   res_metadata = metadata self ! j\<rparr> # rest))"
  proof (intro allI impI)
    fix i
    assume "1 \<le> k \<and> i < length vs \<and> vs ! i = qv \<and>
          length (documents self) = length vs \<and> length (metadata self) = length vs"
    then have h: "1 \<le> k" "i < length vs" "vs ! i = qv"
      "length (documents self) = length vs" "length (metadata self) = length vs"
      by simp_all
    from h(3) have "l2sq qv (vs ! i) = 0" by (simp add: l2sq_self)
    from search_head [OF h(1) h(2) this] obtain j rest where
      s: "search vs qv k = (int j, 0) # rest" "j \<le> i" "l2sq qv (vs ! j) = 0"
        "\<forall>j'<j. l2sq qv (vs ! j') \<noteq> 0"
      by blast
    have "list_all (\<lambda>h. 0 \<le> fst h \<and> fst h < int (length (documents self)) \<and>
                  fst h < int (length (metadata self))) (search vs qv k)"
      using hits h(4,5) by (auto simp: list_all_iff)
    from format_results_valid [OF this] obtain rs where
      f: "format_results self (search vs qv k) = Inr rs" by blast
    from format_results_Inr [OF f nn] s(1) have
      "rs = \<lparr>res_text = documents self ! j, res_score = 1,
             res_metadata = metadata self ! j\<rparr> # map ?mk rest"
      by (simp add: score_of_zero)
    with f ret s show "\<exists>j rest. j \<le> i \<and> l2sq qv (vs ! j) = 0 \<and>
           (\<forall>j'<j. l2sq qv (vs ! j') \<noteq> 0) \<and>
           retrieve model self query k =
             Inr (\<lparr>res_text = documents self ! j, res_score = 1,
                   res_metadata = metadata self ! j\<rparr> # rest)"
      by auto
  qed
  show ?thesis
    by (intro conjI a b score_of_zero c d e)
qed

theorem retrieve_scores_and_exact_match_witness:
  "index example_manager = Some [[2, 1], [5, 1], [4, 1]] \<and>
   stub_model ''hello'' = Some [5, 1] \<and>
   retrieve stub_model example_manager ''hello'' 2
   = Inr [\<lparr>res_text = ''hello'', res_score = 1, res_metadata = [(''source'', ''b.pdf'')]\<rparr>,
          \<lparr>res_text = ''four'', res_score = 1 / 2, res_metadata = [(''source'', ''c.pdf'')]\<rparr>] \<and>
   (\<exists>j rest. j \<le> 1 \<and>
      retrieve stub_model example_manager ''hello'' 2
      = Inr (\<lparr>res_text = documents example_manager ! j, res_score = 1,
               res_metadata = metadata example_manager ! j\<rparr> # rest))"
proof -
  have i: "index example_manager = Some [[2, 1], [5, 1], [4, 1]]"
    by (simp add: example_manager_def)
  have q: "stub_model ''hello'' = Some [5, 1]"
    by (simp add: stub_model_def)
  have r: "retrieve stub_model example_manager ''hello'' 2
   = Inr [\<lparr>res_text = ''hello'', res_score = 1, res_metadata = [(''source'', ''b.pdf'')]\<rparr>,
          \<lparr>res_text = ''four'', res_score = 1 / 2, res_metadata = [(''source'', ''c.pdf'')]\<rparr>]"
    by (simp add: example_manager_def stub_model_def retrieve_def search_def ranked_def
        all_hits_def l2sq_def score_of_zero score_of_one py_index_def upt_rec)
  have h: "(1::int) \<le> 2 \<and> (1::nat) < length [[2, 1], [5, 1], [4, 1::real]] \<and>
      [[2, 1], [5, 1], [4, 1::real]] ! 1 = [5, 1] \<and>
      length (documents example_manager) = length [[2, 1], [5, 1], [4, 1::real]] \<and>
      length (metadata example_manager) = length [[2, 1], [5, 1], [4, 1::real]]"
    by (simp add: example_manager_def)
  from retrieve_scores_and_exact_match
    [where model = stub_model and query = "''hello''" and k = 2, OF i q] have
    "\<forall>i. 1 \<le> (2::int) \<and> i < length [[2, 1], [5, 1], [4, 1::real]] \<and>
          [[2, 1], [5, 1], [4, 1::real]] ! i = [5, 1] \<and>
          length (documents example_manager) = length [[2, 1], [5, 1], [4, 1::real]] \<and>
          length (metadata example_manager) = length [[2, 1], [5, 1], [4, 1::real]] \<longrightarrow>
        (\<exists>j rest. j \<le> i \<and> l2sq [5, 1] ([[2, 1], [5, 1], [4, 1]] ! j) = 0 \<and>
           (\<forall>j'<j. l2sq [5, 1] ([[2, 1], [5, 1], [4, 1]] ! j') \<noteq> 0) \<and>
           retrieve stub_model example_manager ''hello'' 2 =
             Inr (\<lparr>res_text = documents example_manager ! j, res_score = 1,
                   res_metadata = metadata example_manager ! j\<rparr> # rest))"
    by blast
  from this [rule_format, OF h] have
    "\<exists>j rest. j \<le> 1 \<and>
      retrieve stub_model example_manager ''hello'' 2
      = Inr (\<lparr>res_text = documents example_manager ! j, res_score = 1,
               res_metadata = metadata example_manager ! j\<rparr> # rest)"
    by blast
  with i q r show ?thesis by blast
qed


section \<open>The alignment of vectors, texts and metadata\<close>

lemma encode_Inr: "encode model cs = Inr vs \<Longrightarrow> map model cs = map Some vs"
proof (induction cs arbitrary: vs)
  case Nil
  then show ?case by simp
next
  case (Cons c cs)
  then show ?case by (auto split: option.splits sum.splits)
qed

lemma appended_refl: "appended model chunk [] st st"
  by (simp add: appended_def)

lemma appended_trans:
  assumes "appended model chunk es1 st st1" and "appended model chunk es2 st1 st2"
  shows "appended model chunk (es1 @ es2) st st2"
proof -
  from assms(1) obtain E1 where
    a: "documents (fst st1) = documents (fst st) @ map (\<lambda>e. chunk (fst e)) es1"
      "metadata (fst st1) = metadata (fst st) @ map snd es1"
      "vectors (fst st1) = vectors (fst st) @ E1"
      "map model (map (\<lambda>e. chunk (fst e)) es1) = map Some E1"
      "st1 = st \<or> (index (fst st1) \<noteq> None \<and> snd st1 = saved_image (fst st1))"
    unfolding appended_def by blast
  from assms(2) obtain E2 where
    b: "documents (fst st2) = documents (fst st1) @ map (\<lambda>e. chunk (fst e)) es2"
      "metadata (fst st2) = metadata (fst st1) @ map snd es2"
      "vectors (fst st2) = vectors (fst st1) @ E2"
      "map model (map (\<lambda>e. chunk (fst e)) es2) = map Some E2"
      "st2 = st1 \<or> (index (fst st2) \<noteq> None \<and> snd st2 = saved_image (fst st2))"
    unfolding appended_def by blast
  have v: "vectors (fst st2) = vectors (fst st) @ (E1 @ E2) \<and>
      map model (map (\<lambda>e. chunk (fst e)) (es1 @ es2)) = map Some (E1 @ E2)"
    using a(3,4) b(3,4) by simp
  have s: "st2 = st \<or> (index (fst st2) \<noteq> None \<and> snd st2 = saved_image (fst st2))"
    using a(5) b(5) by auto
  from a(1,2) b(1,2) v s show ?thesis
    unfolding appended_def by (intro conjI exI [of _ "E1 @ E2"]) simp_all
qed

lemma add_documents_appended:
  assumes a: "add_documents model chunk texts metadatas st = Inr st'"
    and l: "length texts = length metadatas"
  shows "appended model chunk (zip texts metadatas) st st'"
proof -
  from a obtain embeddings where
    e: "encode model (map chunk texts) = Inr embeddings"
      "st' = (fst st\<lparr>index := Some (vectors (fst st) @ embeddings),
                     documents := documents (fst st) @ map chunk texts,
                     metadata := metadata (fst st) @ metadatas\<rparr>,
              saved_image (fst st\<lparr>index := Some (vectors (fst st) @ embeddings),
                     documents := documents (fst st) @ map chunk texts,
                     metadata := metadata (fst st) @ metadatas\<rparr>))"
    by (auto simp: add_documents_def save_index_def saved_image_def vectors_def Let_def
        split: sum.splits)
  from l have m: "map (\<lambda>e. chunk (fst e)) (zip texts metadatas) = map chunk texts"
    "map snd (zip texts metadatas) = metadatas"
    by (simp_all add: map_fst_zip flip: map_map [unfolded comp_def])
  from encode_Inr [OF e(1)] have "map model (map chunk texts) = map Some embeddings" .
  with e(2) m show ?thesis
    unfolding appended_def
    by (intro conjI exI [of _ embeddings]) (simp_all add: vectors_def)
qed

lemma index_directory_appended:
  assumes "index_directory model chunk pdfs st = (r, st')"
  shows "\<exists>es. appended model chunk es st st' \<and> (r = None \<longrightarrow> es = entries (IndexDirectory pdfs))"
  using assms
proof (induction pdfs arbitrary: st)
  case Nil
  then show ?case using appended_refl [of model chunk st] by auto
next
  case (Cons p pdfs)
  obtain name pages where p: "p = (name, pages)" by (cases p)
  show ?case
  proof (cases "add_documents model chunk [join_nl pages] [[(''source'', name)]] st")
    case (Inl e)
    with Cons.prems p have "r = Some e" "st' = st" by simp_all
    then show ?thesis using appended_refl [of model chunk st] by blast
  next
    case (Inr st1)
    from add_documents_appended [OF Inr] have
      one: "appended model chunk [(join_nl pages, [(''source'', name)])] st st1" by simp
    from Cons.prems Inr p have "index_directory model chunk pdfs st1 = (r, st')" by simp
    from Cons.IH [OF this] obtain es where
      es: "appended model chunk es st1 st'" "r = None \<longrightarrow> es = entries (IndexDirectory pdfs)"
      by blast
    from appended_trans [OF one es(1)] es(2) p show ?thesis
      by (intro exI [of _ "[(join_nl pages, [(''source'', name)])] @ es"]) simp
  qed
qed

lemma apply_operation_appended:
  assumes "apply_operation model chunk x st = (r, st')" and "well_formed x"
  shows "\<exists>es. appended model chunk es st st' \<and> (r = None \<longrightarrow> es = entries x)"
proof (cases x)
  case (AddDocuments texts metadatas)
  show ?thesis
  proof (cases "add_documents model chunk texts metadatas st")
    case (Inl e)
    with assms(1) AddDocuments have "r = Some e" "st' = st" by simp_all
    then show ?thesis using appended_refl [of model chunk st] by blast
  next
    case (Inr st1)
    with assms(1) AddDocuments have "r = None" "st' = st1" by simp_all
    with add_documents_appended [OF Inr] assms(2) AddDocuments show ?thesis by auto
  qed
next
  case (IndexDirectory pdfs)
  with assms(1) index_directory_appended show ?thesis by simp
qed

lemma run_operations_appended:
  assumes "run_operations model chunk ops st = (r, st')" and "list_all well_formed ops"
  shows "\<exists>es. appended model chunk es st st' \<and> (r = None \<longrightarrow> es = concat (map entries ops))"
  using assms
proof (induction ops arbitrary: st)
  case Nil
  then show ?case using appended_refl [of model chunk st] by auto
next
  case (Cons x xs)
  obtain r1 st1 where a: "apply_operation model chunk x st = (r1, st1)"
    by (cases "apply_operation model chunk x st")
  from Cons.prems(2) have wf: "well_formed x" "list_all well_formed xs" by simp_all
  from apply_operation_appended [OF a wf(1)] obtain es1 where
    es1: "appended model chunk es1 st st1" "r1 = None \<longrightarrow> es1 = entries x" by blast
  show ?case
  proof (cases r1)
    case None
    with Cons.prems(1) a have "run_operations model chunk xs st1 = (r, st')" by simp
    from Cons.IH [OF this wf(2)] obtain es2 where
      es2: "appended model chunk es2 st1 st'" "r = None \<longrightarrow> es2 = concat (map entries xs)"
      by blast
    from appended_trans [OF es1(1) es2(1)] es1(2) es2(2) None show ?thesis
      by (intro exI [of _ "es1 @ es2"]) simp
  next
    case (Some e)
    with Cons.prems(1) a have "r = Some e" "st' = st1" by simp_all
    with es1(1) show ?thesis by auto
  qed
qed


lemma zip_chunks_metadata:
  "zip (map (\<lambda>e. chunk (fst e)) es) (map snd es) = map (\<lambda>(t, m). (chunk t, m)) es"
  by (induction es) auto

text \<open>
  Claim C1 (after every sequence of \<^verbatim>\<open>add_documents\<close> and \<^verbatim>\<open>index_directory\<close> calls, in
  memory and after a save and load, vectors, texts and metadata are equally many and position
  \<open>i\<close> of each describes the same chunk).  \<^verbatim>\<open>add_documents\<close> extends the texts by
  \<^verbatim>\<open>len(texts)\<close> and the metadata by \<^verbatim>\<open>len(metadatas)\<close> and compares nothing: one call with
  two texts and one metadata entry leaves two vectors, two texts and one metadata entry.
\<close>

theorem add_documents_unequal_lengths:
  "add_documents stub_model strip [''a'', ''b''] [[(''source'', ''a.pdf'')]]
     (\<lparr>index = None, documents = [], metadata = []\<rparr>, empty_store)
   = Inr (\<lparr>index = Some [[1, 1], [1, 1]], documents = [''a'', ''b''],
           metadata = [[(''source'', ''a.pdf'')]]\<rparr>,
          \<lparr>faiss_index = Content [[1, 1], [1, 1]],
           documents_txt = Content [CHR ''a'', CHR 0x0A, CHR ''b''],
           metadata_txt = Content [[(''source'', ''a.pdf'')]]\<rparr>)"
  by (simp add: store_defs)

text \<open>
  Claim C1, as amended: after every sequence of \<^verbatim>\<open>index_directory\<close> calls and of
  \<^verbatim>\<open>add_documents\<close> calls that pass as many metadata entries as texts, started on a manager
  constructed on an empty store (whether the sequence ran to its end or was stopped by an
  exception), vectors, texts and metadata are equally many and the vector at position \<open>i\<close> is
  the embedding of the text at position \<open>i\<close>; when the sequence ran to its end, the text and
  the metadata at position \<open>i\<close> are the chunk and the metadata of the \<open>i\<close>-th submitted entry.
  A manager constructed afterwards on the same store is equal to this one, provided at least
  one text is stored and no stored text contains a line feed or a carriage return.
\<close>

theorem aligned_after_well_formed_run:
  assumes wf: "list_all well_formed ops"
    and run: "run_operations model chunk ops
                (\<lparr>index = None, documents = [], metadata = []\<rparr>, empty_store) = (r, rag, fs)"
  shows "length (vectors rag) = length (documents rag) \<and>
         length (metadata rag) = length (documents rag) \<and>
         map model (documents rag) = map Some (vectors rag) \<and>
         (r = None \<longrightarrow>
            zip (documents rag) (metadata rag) =
              map (\<lambda>(t, m). (chunk t, m)) (concat (map entries ops))) \<and>
         (documents rag \<noteq> [] \<and>
          list_all (\<lambda>d. CHR 0x0A \<notin> set d) (documents rag) \<and>
          list_all (\<lambda>d. CHR 0x0D \<notin> set d) (documents rag) \<longrightarrow>
            RAGManager fs = Inr rag)"
proof -
  let ?cold = "\<lparr>index = None, documents = [], metadata = []\<rparr>"
  from run_operations_appended [OF run wf] obtain es where
    ap: "appended model chunk es (?cold, empty_store) (rag, fs)"
    and all: "r = None \<longrightarrow> es = concat (map entries ops)"
    by blast
  from ap obtain E where
    d: "documents rag = map (\<lambda>e. chunk (fst e)) es"
    and m: "metadata rag = map snd es"
    and v: "vectors rag = E" "map model (map (\<lambda>e. chunk (fst e)) es) = map Some E"
    and s: "(rag, fs) = (?cold, empty_store) \<or> (index rag \<noteq> None \<and> fs = saved_image rag)"
    unfolding appended_def by (auto simp: vectors_def)
  from v d have emb: "map model (documents rag) = map Some (vectors rag)" by simp
  from arg_cong [OF emb, of length] have lv: "length (vectors rag) = length (documents rag)"
    by simp
  from d m have lm: "length (metadata rag) = length (documents rag)" by simp
  from d m have "zip (documents rag) (metadata rag) = map (\<lambda>(t, m). (chunk t, m)) es"
    by (simp add: zip_chunks_metadata)
  with all have prov: "r = None \<longrightarrow>
      zip (documents rag) (metadata rag) = map (\<lambda>(t, m). (chunk t, m)) (concat (map entries ops))"
    by simp
  have reload: "RAGManager fs = Inr rag"
    if ne: "documents rag \<noteq> []" and nl: "list_all (\<lambda>d. CHR 0x0A \<notin> set d) (documents rag)"
      and cr: "list_all (\<lambda>d. CHR 0x0D \<notin> set d) (documents rag)"
  proof -
    from s ne have i: "index rag \<noteq> None" and f: "fs = saved_image rag" by auto
    from i obtain vs where vs: "index rag = Some vs" by auto
    have "universal_newlines (join_nl (documents rag)) = join_nl (documents rag)"
      using cr by (intro universal_newlines_id join_nl_no_cr)
    with split_join_nl [OF ne nl] f vs show ?thesis
      by (simp add: RAGManager_def load_index_def saved_image_def vectors_def)
  qed
  from lv lm emb prov reload show ?thesis by blast
qed

theorem aligned_after_well_formed_run_witness:
  "list_all well_formed
     [IndexDirectory [(''a.pdf'', [''first''])],
      AddDocuments [''second'', ''third3''] [[(''source'', ''b.pdf'')], [(''source'', ''c.pdf'')]]] \<and>
   run_operations stub_model strip
     [IndexDirectory [(''a.pdf'', [''first''])],
      AddDocuments [''second'', ''third3''] [[(''source'', ''b.pdf'')], [(''source'', ''c.pdf'')]]]
     (\<lparr>index = None, documents = [], metadata = []\<rparr>, empty_store)
   = (None,
      \<lparr>index = Some [[5, 1], [6, 1], [6, 1]], documents = [''first'', ''second'', ''third3''],
       metadata = [[(''source'', ''a.pdf'')], [(''source'', ''b.pdf'')], [(''source'', ''c.pdf'')]]\<rparr>,
      saved_image
        \<lparr>index = Some [[5, 1], [6, 1], [6, 1]], documents = [''first'', ''second'', ''third3''],
         metadata = [[(''source'', ''a.pdf'')], [(''source'', ''b.pdf'')], [(''source'', ''c.pdf'')]]\<rparr>) \<and>
   RAGManager (saved_image
        \<lparr>index = Some [[5, 1], [6, 1], [6, 1]], documents = [''first'', ''second'', ''third3''],
         metadata = [[(''source'', ''a.pdf'')], [(''source'', ''b.pdf'')], [(''source'', ''c.pdf'')]]\<rparr>)
   = Inr \<lparr>index = Some [[5, 1], [6, 1], [6, 1]], documents = [''first'', ''second'', ''third3''],
       metadata = [[(''source'', ''a.pdf'')], [(''source'', ''b.pdf'')], [(''source'', ''c.pdf'')]]\<rparr>"
proof -
  have wf: "list_all well_formed
     [IndexDirectory [(''a.pdf'', [''first''])],
      AddDocuments [''second'', ''third3''] [[(''source'', ''b.pdf'')], [(''source'', ''c.pdf'')]]]"
    by simp
  have run: "run_operations stub_model strip
     [IndexDirectory [(''a.pdf'', [''first''])],
      AddDocuments [''second'', ''third3''] [[(''source'', ''b.pdf'')], [(''source'', ''c.pdf'')]]]
     (\<lparr>index = None, documents = [], metadata = []\<rparr>, empty_store)
   = (None,
      \<lparr>index = Some [[5, 1], [6, 1], [6, 1]], documents = [''first'', ''second'', ''third3''],
       metadata = [[(''source'', ''a.pdf'')], [(''source'', ''b.pdf'')], [(''source'', ''c.pdf'')]]\<rparr>,
      saved_image
        \<lparr>index = Some [[5, 1], [6, 1], [6, 1]], documents = [''first'', ''second'', ''third3''],
         metadata = [[(''source'', ''a.pdf'')], [(''source'', ''b.pdf'')], [(''source'', ''c.pdf'')]]\<rparr>)"
    by (simp add: store_defs saved_image_def)
  from aligned_after_well_formed_run [OF wf run] wf run show ?thesis
    by simp
qed


end
